theory Spec2Isabelle
  imports Complex_Main
begin

section \<open>The sliding-window rate limiter of \<^verbatim>\<open>ratelimiter/_sync.py\<close>\<close>

text \<open>
  A shallow embedding of the class \<^verbatim>\<open>RateLimiter\<close>. Conventions:
  \<^item> Timestamps and the period are Python floats; they are modelled as real numbers, so
    rounding, infinities and NaN are outside the model. The counts \<^verbatim>\<open>max_calls\<close> and
    \<^verbatim>\<open>consume\<close> are Python integers, modelled as \<open>int\<close>.
  \<^item> \<^verbatim>\<open>time.time()\<close> is an input: every read of the clock is an explicit argument
    of the operation that performs it, in the order of the reads.
  \<^item> An exception is a value of type \<open>error\<close>. An operation that can raise after it has
    mutated the limiter returns the error together with the limiter as it was left.
  \<^item> The effects on the outside world (taking and dropping \<^verbatim>\<open>self._lock\<close>, starting
    the callback thread, \<^verbatim>\<open>time.sleep\<close>) are returned as a list of events in program
    order.
  \<^item> The division \<^verbatim>\<open>self.consume / self.max_calls\<close> is Python 3's true division.
\<close>

subsection \<open>Data\<close>

datatype error =
    ValueError string
  | AttributeError string
  | ZeroDivisionError
  | IndexError

text \<open>
  The attributes of a limiter. \<open>calls\<close> is the deque, oldest entry first;
  \<open>consume_attr\<close> is the attribute \<^verbatim>\<open>_consume\<close> behind the property \<^verbatim>\<open>consume\<close>.
  The locks \<^verbatim>\<open>_alock\<close> and \<^verbatim>\<open>_init_lock\<close> are never used by this file's methods
  and are left out; \<^verbatim>\<open>_lock\<close> appears through its events.
\<close>

record 'cb RateLimiter =
  calls :: "real list"
  period :: real
  max_calls :: int
  callback :: "'cb option"
  consume_attr :: int

datatype 'cb event =
    Lock_acquire
  | Lock_release
  | Thread_start 'cb real
  | Sleep real

text \<open>
  Which arm of the test of \<^verbatim>\<open>__enter__\<close> ran. \<open>Blocking until sleeptime\<close> carries
  the two local variables the arm computes.
\<close>

datatype branch = Immediate | Blocking real real

subsection \<open>The property \<^verbatim>\<open>consume\<close>\<close>

definition consume_getter :: "'cb RateLimiter \<Rightarrow> int" where
  "consume_getter s = consume_attr s"

definition consume_setter :: "'cb RateLimiter \<Rightarrow> int \<Rightarrow> (error + unit) \<times> 'cb RateLimiter" where
  "consume_setter s v =
     (if v \<ge> 1 then (Inr (), s\<lparr>consume_attr := v\<rparr>)
      else (Inl (ValueError ''Number of calls to consume should be >= 1''), s))"

definition consume_deleter :: "'cb RateLimiter \<Rightarrow> (error + unit) \<times> 'cb RateLimiter" where
  "consume_deleter s = (Inl (AttributeError ''Consume attribute cannot be dereferenced''), s)"

subsection \<open>Construction\<close>

text \<open>
  \<^verbatim>\<open>__init__(self, max_calls, period, callback, consume)\<close>. The three tests run in the
  source's order; the assignment \<^verbatim>\<open>self.consume = consume\<close> goes through the setter,
  whose own test is repeated here. When a test fails nothing is returned but the error.
\<close>

definition init :: "int \<Rightarrow> real \<Rightarrow> 'cb option \<Rightarrow> int \<Rightarrow> error + 'cb RateLimiter" where
  "init max_calls' period' callback' consume' =
     (if period' \<le> 0 then Inl (ValueError ''Rate limiting period should be > 0'')
      else if max_calls' \<le> 0 then Inl (ValueError ''Rate limiting number of calls should be > 0'')
      else if consume' < 1 then Inl (ValueError ''Number of calls to consume should be >= 1'')
      else if consume' \<ge> 1 then
        Inr \<lparr>calls = [], period = period', max_calls = max_calls',
             callback = callback', consume_attr = consume'\<rparr>
      else Inl (ValueError ''Number of calls to consume should be >= 1''))"

subsection \<open>The window span\<close>

text \<open>\<^verbatim>\<open>_timespan\<close>: \<^verbatim>\<open>self.calls[-1] - self.calls[0] if self.calls else 0\<close>.\<close>

definition timespan :: "real list \<Rightarrow> real" where
  "timespan cs = (if cs \<noteq> [] then last cs - hd cs else 0)"

subsection \<open>\<^verbatim>\<open>__enter__\<close>\<close>

text \<open>
  \<^verbatim>\<open>math.ceil(self.consume / self.max_calls)\<close>; the division raises when the divisor
  is zero.
\<close>

definition cycles :: "int \<Rightarrow> int \<Rightarrow> error + int" where
  "cycles w c = (if c = 0 then Inl ZeroDivisionError else Inr \<lceil>real_of_int w / real_of_int c\<rceil>)"

text \<open>
  \<open>enter s t1 t2\<close>: \<open>t1\<close> is the clock read in the computation of \<^verbatim>\<open>until\<close>, \<open>t2\<close>
  the one in the computation of \<^verbatim>\<open>sleeptime\<close>. The method assigns no attribute, so no
  limiter is returned; it returns \<^verbatim>\<open>self\<close>, for which the model reports the arm taken.
  The whole body is inside \<^verbatim>\<open>with self._lock\<close>: the lock is taken first and dropped
  last, also when the body raises. The test \<^verbatim>\<open>if self.callback\<close> is the test that a
  callback was given (\<open>None\<close> is false, a function is true).
\<close>

definition enter :: "'cb RateLimiter \<Rightarrow> real \<Rightarrow> real \<Rightarrow> 'cb event list \<times> (error + branch)" where
  "enter s t1 t2 =
     (if int (length (calls s)) + consume_getter s > max_calls s then
        (case cycles (consume_getter s) (max_calls s) of
           Inl e \<Rightarrow> ([Lock_acquire, Lock_release], Inl e)
         | Inr n \<Rightarrow>
             (let until = t1 + real_of_int n * period s - timespan (calls s);
                  started = (case callback s of None \<Rightarrow> [] | Some cb \<Rightarrow> [Thread_start cb until]);
                  sleeptime = until - t2;
                  slept = (if sleeptime > 0 then [Sleep sleeptime] else [])
              in ([Lock_acquire] @ started @ slept @ [Lock_release],
                  Inr (Blocking until sleeptime))))
      else ([Lock_acquire, Lock_release], Inr Immediate))"

subsection \<open>\<^verbatim>\<open>__exit__\<close>\<close>

text \<open>
  The loop \<^verbatim>\<open>while self._timespan >= self.period: self.calls.popleft()\<close>.
  \<^verbatim>\<open>popleft\<close> on an empty deque raises \<^verbatim>\<open>IndexError\<close>, which happens exactly when the
  deque is empty and the period is not positive.
\<close>

fun trim :: "real \<Rightarrow> real list \<Rightarrow> (error + unit) \<times> real list" where
  "trim p cs =
     (if timespan cs \<ge> p then
        (case cs of [] \<Rightarrow> (Inl IndexError, []) | c # cs' \<Rightarrow> trim p cs')
      else (Inr (), cs))"

text \<open>\<open>exit s now\<close>: \<open>now\<close> is the one clock read of the method.\<close>

definition exit :: "'cb RateLimiter \<Rightarrow> real \<Rightarrow> 'cb event list \<times> (error + unit) \<times> 'cb RateLimiter" where
  "exit s now =
     (let timestamps = replicate (nat (consume_getter s)) now;
          extended = calls s @ timestamps
      in (case trim (period s) extended of
            (r, cs) \<Rightarrow> ([Lock_acquire, Lock_release], r, s\<lparr>calls := cs\<rparr>)))"

subsection \<open>The decorator\<close>

text \<open>
  What the function returned by \<^verbatim>\<open>__call__\<close> raises: an exception of the limiter's own
  methods, or the exception of the wrapped callable, carried unchanged.
\<close>

datatype 'x raised = Limiter_error error | Callable_error 'x

text \<open>
  \<^verbatim>\<open>wrapped(*args, **kwargs)\<close> is \<^verbatim>\<open>with self: return f(*args, **kwargs)\<close>. The callable
  is any function of its arguments and of the limiter it may reach and mutate; it returns
  (\<open>Inr\<close>) or raises (\<open>Inl\<close>). The with statement calls \<^verbatim>\<open>__enter__\<close>; when that raises,
  neither the callable nor \<^verbatim>\<open>__exit__\<close> runs. Otherwise the callable runs and
  \<^verbatim>\<open>__exit__\<close> is called on both of its outcomes; \<^verbatim>\<open>__exit__\<close> returns \<^verbatim>\<open>None\<close>, so an
  exception of the callable is raised again, unless \<^verbatim>\<open>__exit__\<close> itself raises.
  \<open>t1\<close> and \<open>t2\<close> are the clock reads of \<^verbatim>\<open>__enter__\<close>, \<open>t3\<close> the one of \<^verbatim>\<open>__exit__\<close>.
\<close>

definition wrapped ::
  "('a \<Rightarrow> 'cb RateLimiter \<Rightarrow> ('x + 'r) \<times> 'cb RateLimiter) \<Rightarrow> 'cb RateLimiter \<Rightarrow>
   real \<Rightarrow> real \<Rightarrow> real \<Rightarrow> 'a \<Rightarrow> 'cb event list \<times> ('x raised + 'r) \<times> 'cb RateLimiter" where
  "wrapped f s t1 t2 t3 args =
     (case enter s t1 t2 of
        (ev1, Inl e) \<Rightarrow> (ev1, Inl (Limiter_error e), s)
      | (ev1, Inr b) \<Rightarrow>
          (case f args s of
             (r, s1) \<Rightarrow>
               (case exit s1 t3 of
                  (ev2, Inl e, s2) \<Rightarrow> (ev1 @ ev2, Inl (Limiter_error e), s2)
                | (ev2, Inr u, s2) \<Rightarrow>
                    (ev1 @ ev2,
                     (case r of Inl x \<Rightarrow> Inl (Callable_error x) | Inr v \<Rightarrow> Inr v),
                     s2))))"

subsection \<open>Notions used by the properties\<close>

text \<open>
  What the constructor establishes and the setter keeps: a positive period, a positive
  capacity and a weight of at least one.
\<close>

definition valid :: "'cb RateLimiter \<Rightarrow> bool" where
  "valid s = (0 < period s \<and> 0 < max_calls s \<and> 1 \<le> consume_attr s)"

text \<open>
  The trimming loop in the words of the specification: while the log is non-empty and
  newest minus oldest is at least the period, remove the oldest entry.
\<close>

fun spec_trim :: "real \<Rightarrow> real list \<Rightarrow> real list" where
  "spec_trim p [] = []"
| "spec_trim p (c # cs) = (if last (c # cs) - c \<ge> p then spec_trim p cs else c # cs)"

text \<open>
  Replaying a list of events from a lock that is held (\<open>h\<close> true) or free:
  \<open>guard_after h es\<close> is the state of the lock at the end, and \<open>sleeps_when g h es\<close>
  says that every \<open>Sleep\<close> of \<open>es\<close> happens while the lock is held (\<open>g\<close> true) or while
  it is free (\<open>g\<close> false).
\<close>

fun guard_after :: "bool \<Rightarrow> 'cb event list \<Rightarrow> bool" where
  "guard_after h [] = h"
| "guard_after h (Lock_acquire # es) = guard_after True es"
| "guard_after h (Lock_release # es) = guard_after False es"
| "guard_after h (Thread_start cb u # es) = guard_after h es"
| "guard_after h (Sleep d # es) = guard_after h es"

fun sleeps_when :: "bool \<Rightarrow> bool \<Rightarrow> 'cb event list \<Rightarrow> bool" where
  "sleeps_when g h [] = True"
| "sleeps_when g h (Lock_acquire # es) = sleeps_when g True es"
| "sleeps_when g h (Lock_release # es) = sleeps_when g False es"
| "sleeps_when g h (Thread_start cb u # es) = sleeps_when g h es"
| "sleeps_when g h (Sleep d # es) = (h = g \<and> sleeps_when g h es)"

section \<open>Auxiliary facts\<close>

declare trim.simps [simp del]

lemma trim_Nil: "0 < p \<Longrightarrow> trim p [] = (Inr (), [])"
  by (simp add: trim.simps [of p "[]"] timespan_def)

lemma trim_Cons:
  "0 < p \<Longrightarrow> trim p (c # cs) = (if last (c # cs) - c \<ge> p then trim p cs else (Inr (), c # cs))"
  by (simp add: trim.simps [of p "c # cs"] timespan_def)

text \<open>With a positive period the source's loop never raises and is the loop of the specification.\<close>

lemma trim_spec_trim: "0 < p \<Longrightarrow> trim p cs = (Inr (), spec_trim p cs)"
  by (induction cs) (simp_all add: trim_Nil trim_Cons)

text \<open>The loop drops the longest prefix of entries at least one period older than the newest.\<close>

lemma spec_trim_dropWhile: "0 < p \<Longrightarrow> spec_trim p cs = dropWhile (\<lambda>x. last cs - x \<ge> p) cs"
proof (induction cs)
  case Nil
  then show ?case by simp
next
  case (Cons c cs)
  show ?case
  proof (cases "cs = []")
    case True
    with Cons.prems show ?thesis by simp
  next
    case False
    with Cons show ?thesis by simp
  qed
qed

lemma exit_spec_trim:
  "0 < period s \<Longrightarrow>
   exit s now = ([Lock_acquire, Lock_release], Inr (),
     s\<lparr>calls := spec_trim (period s) (calls s @ replicate (nat (consume_getter s)) now)\<rparr>)"
  by (simp add: exit_def trim_spec_trim)

text \<open>
  A period that is not positive is what the constructor refuses: with period 0 the loop
  empties the log and then pops from the empty deque.
\<close>

lemma exit_zero_period:
  "exit \<lparr>calls = [], period = 0, max_calls = 1, callback = None :: nat option, consume_attr = 1\<rparr> now
     = ([Lock_acquire, Lock_release], Inl IndexError,
        \<lparr>calls = [], period = 0, max_calls = 1, callback = None, consume_attr = 1\<rparr>)"
  by (simp add: exit_def consume_getter_def trim.simps [of 0 "[now]"] trim.simps [of 0 "[]"] timespan_def)

lemma spec_trim_replicate: "0 < p \<Longrightarrow> spec_trim p (replicate n t) = replicate n t"
  by (cases n) simp_all

lemma spec_trim_append_replicate:
  "0 < p \<Longrightarrow> \<exists>k\<le>length xs. spec_trim p (xs @ replicate n t) = drop k xs @ replicate n t"
proof (induction xs)
  case Nil
  then show ?case by (simp add: spec_trim_replicate)
next
  case (Cons x xs)
  then obtain k where k: "k \<le> length xs" "spec_trim p (xs @ replicate n t) = drop k xs @ replicate n t"
    by blast
  show ?case
  proof (cases "last (x # xs @ replicate n t) - x \<ge> p")
    case True
    with k have "Suc k \<le> length (x # xs)"
      "spec_trim p ((x # xs) @ replicate n t) = drop (Suc k) (x # xs) @ replicate n t"
      by simp_all
    then show ?thesis by blast
  next
    case False
    then have "spec_trim p ((x # xs) @ replicate n t) = drop 0 (x # xs) @ replicate n t"
      by simp
    then show ?thesis by blast
  qed
qed

lemma spec_trim_window:
  assumes p: "0 < p" and ne: "cs \<noteq> []"
  defines "P \<equiv> \<lambda>x. last cs - x \<ge> p"
  shows "spec_trim p cs = dropWhile P cs"
    and "dropWhile P cs \<noteq> []"
    and "last (dropWhile P cs) = last cs"
    and "last cs - hd (dropWhile P cs) < p"
proof -
  show "spec_trim p cs = dropWhile P cs"
    using p by (simp add: spec_trim_dropWhile P_def)
  have "last cs \<in> set cs" "\<not> P (last cs)"
    using ne p by (simp_all add: P_def)
  then show kept: "dropWhile P cs \<noteq> []"
    by (auto simp: dropWhile_eq_Nil_conv)
  have "last (takeWhile P cs @ dropWhile P cs) = last (dropWhile P cs)"
    using kept by (rule last_appendR)
  then show "last (dropWhile P cs) = last cs"
    by simp
  have "\<not> P (hd (dropWhile P cs))"
    using kept by (rule hd_dropWhile)
  then show "last cs - hd (dropWhile P cs) < p"
    by (simp add: P_def)
qed

lemma timespan_replicate: "timespan (replicate n t) = 0"
  by (cases n) (simp_all add: timespan_def)

text \<open>The two arms of \<^verbatim>\<open>__enter__\<close>, and the division by a zero capacity.\<close>

lemma enter_immediate:
  "int (length (calls s)) + consume_getter s \<le> max_calls s \<Longrightarrow>
   enter s t1 t2 = ([Lock_acquire, Lock_release], Inr Immediate)"
  by (simp add: enter_def)

lemma enter_blocking:
  assumes "max_calls s \<noteq> 0" and "max_calls s < int (length (calls s)) + consume_getter s"
  shows "enter s t1 t2 =
    (let until = t1 + real_of_int \<lceil>real_of_int (consume_getter s) / real_of_int (max_calls s)\<rceil> * period s
                   - timespan (calls s)
     in ([Lock_acquire]
           @ (case callback s of None \<Rightarrow> [] | Some cb \<Rightarrow> [Thread_start cb until])
           @ (if 0 < until - t2 then [Sleep (until - t2)] else [])
           @ [Lock_release],
         Inr (Blocking until (until - t2))))"
  using assms by (simp add: enter_def cycles_def Let_def)

lemma enter_zero_capacity:
  "max_calls s = 0 \<Longrightarrow> 0 < int (length (calls s)) + consume_getter s \<Longrightarrow>
   enter s t1 t2 = ([Lock_acquire, Lock_release], Inl ZeroDivisionError)"
  by (simp add: enter_def cycles_def)

text \<open>A run of assignments to \<^verbatim>\<open>consume\<close>: the getter then returns the last accepted value.\<close>

lemma consume_setter_fold:
  "consume_getter (foldl (\<lambda>s v. snd (consume_setter s v)) s vs)
     = last (consume_getter s # filter (\<lambda>v. 1 \<le> v) vs)"
  by (induction vs arbitrary: s) (simp_all add: consume_setter_def consume_getter_def)

text \<open>The constructor establishes \<open>valid\<close>; the setter and \<^verbatim>\<open>__exit__\<close> keep it.\<close>

lemma init_valid: "init c p cb w = Inr s \<Longrightarrow> valid s \<and> calls s = []"
  by (auto simp: init_def valid_def split: if_splits)

lemma consume_setter_valid: "valid s \<Longrightarrow> valid (snd (consume_setter s v))"
  by (simp add: consume_setter_def valid_def)

lemma exit_valid: "valid s \<Longrightarrow> valid (snd (snd (exit s now)))"
  by (simp add: valid_def exit_spec_trim)

text \<open>
  While the clock does not run backwards the log stays sorted: if the log followed by
  the current time is sorted, so is the log after the release followed by any later time.
\<close>

lemma exit_keeps_sorted:
  assumes "0 < period s" and "sorted (calls s @ [now])" and "now \<le> now'"
  shows "sorted (calls (snd (snd (exit s now))) @ [now'])"
proof -
  define full where "full = calls s @ replicate (nat (consume_getter s)) now"
  define P where "P = (\<lambda>x. last full - x \<ge> period s)"
  have srt: "sorted full" and le: "\<forall>x\<in>set full. x \<le> now'"
    using assms(2,3) by (auto simp: full_def sorted_append)
  have "sorted (dropWhile P full)"
    using srt by (rule sorted_dropWhile)
  moreover have "\<forall>x\<in>set (dropWhile P full). x \<le> now'"
    using le by (auto dest: set_dropWhileD)
  ultimately have "sorted (dropWhile P full @ [now'])"
    by (simp add: sorted_append)
  then show ?thesis
    using assms(1) by (simp add: exit_spec_trim spec_trim_dropWhile full_def P_def)
qed

section \<open>Construction\<close>

text \<open>
  Claim C6. The constructor raises \<^verbatim>\<open>ValueError\<close> exactly when the period is not
  positive, the capacity is not positive, or the weight is below one; it raises no other
  kind of error; when it raises there is no limiter; otherwise it returns the limiter
  with an empty log and the given attributes.
\<close>

theorem init_rejects:
  "(\<exists>msg. init c p cb w = Inl (ValueError msg)) = (p \<le> 0 \<or> c \<le> 0 \<or> w < 1)
   \<and> (\<forall>e. init c p cb w = Inl e \<longrightarrow> (\<exists>msg. e = ValueError msg))
   \<and> (p \<le> 0 \<or> c \<le> 0 \<or> w < 1 \<longrightarrow> (\<forall>s. init c p cb w \<noteq> Inr s))
   \<and> (\<not> (p \<le> 0 \<or> c \<le> 0 \<or> w < 1) \<longrightarrow>
        init c p cb w = Inr \<lparr>calls = [], period = p, max_calls = c, callback = cb, consume_attr = w\<rparr>)"
  by (simp add: init_def)

text \<open>Each of the three violations alone, with the other parameters valid, and a valid construction.\<close>

theorem init_rejects_witness:
  "(\<exists>msg. init 0 1 (None :: nat option) 1 = Inl (ValueError msg))
   \<and> (\<exists>msg. init 5 0 (None :: nat option) 1 = Inl (ValueError msg))
   \<and> (\<exists>msg. init 5 1 (None :: nat option) 0 = Inl (ValueError msg))
   \<and> init 5 1 (None :: nat option) 2
       = Inr \<lparr>calls = [], period = 1, max_calls = 5, callback = None, consume_attr = 2\<rparr>"
  using init_rejects [of 0 1 "None :: nat option" 1] init_rejects [of 5 0 "None :: nat option" 1]
    init_rejects [of 5 1 "None :: nat option" 0] init_rejects [of 5 1 "None :: nat option" 2]
  by simp

section \<open>The weight\<close>

text \<open>
  Claim C8. Assigning a value of at least one to \<^verbatim>\<open>consume\<close> stores it and leaves the
  log as it is; assigning a smaller value raises \<^verbatim>\<open>ValueError\<close> and leaves the limiter
  unchanged; deleting the attribute raises \<^verbatim>\<open>AttributeError\<close> and leaves the limiter
  unchanged; after any run of assignments the getter returns the last accepted value (the
  value held before, when none was accepted); and the stored value is the weight that
  the next \<^verbatim>\<open>__exit__\<close> appends and that the next \<^verbatim>\<open>__enter__\<close> tests.
\<close>

theorem consume_property:
  "(1 \<le> v \<longrightarrow> consume_setter s v = (Inr (), s\<lparr>consume_attr := v\<rparr>)
             \<and> calls (snd (consume_setter s v)) = calls s
             \<and> consume_getter (snd (consume_setter s v)) = v)
   \<and> (v < 1 \<longrightarrow> consume_setter s v
                   = (Inl (ValueError ''Number of calls to consume should be >= 1''), s))
   \<and> consume_deleter s = (Inl (AttributeError ''Consume attribute cannot be dereferenced''), s)
   \<and> consume_getter (foldl (\<lambda>s v. snd (consume_setter s v)) s vs)
       = last (consume_getter s # filter (\<lambda>v. 1 \<le> v) vs)
   \<and> (1 \<le> v \<and> 0 < period s \<longrightarrow>
        exit (snd (consume_setter s v)) now
          = ([Lock_acquire, Lock_release], Inr (),
             s\<lparr>consume_attr := v, calls := spec_trim (period s) (calls s @ replicate (nat v) now)\<rparr>))
   \<and> (1 \<le> v \<longrightarrow>
        (snd (enter (snd (consume_setter s v)) t1 t2) = Inr Immediate)
          = (int (length (calls s)) + v \<le> max_calls s))"
proof -
  have set_ok: "consume_setter s v = (Inr (), s\<lparr>consume_attr := v\<rparr>)" if "1 \<le> v"
    using that by (simp add: consume_setter_def)
  have c1: "1 \<le> v \<longrightarrow> consume_setter s v = (Inr (), s\<lparr>consume_attr := v\<rparr>)
             \<and> calls (snd (consume_setter s v)) = calls s
             \<and> consume_getter (snd (consume_setter s v)) = v"
    by (simp add: set_ok consume_getter_def)
  have c2: "v < 1 \<longrightarrow> consume_setter s v
                   = (Inl (ValueError ''Number of calls to consume should be >= 1''), s)"
    by (simp add: consume_setter_def)
  have c3: "consume_deleter s = (Inl (AttributeError ''Consume attribute cannot be dereferenced''), s)"
    by (simp add: consume_deleter_def)
  have c4: "consume_getter (foldl (\<lambda>s v. snd (consume_setter s v)) s vs)
       = last (consume_getter s # filter (\<lambda>v. 1 \<le> v) vs)"
    by (rule consume_setter_fold)
  have c5: "1 \<le> v \<and> 0 < period s \<longrightarrow>
        exit (snd (consume_setter s v)) now
          = ([Lock_acquire, Lock_release], Inr (),
             s\<lparr>consume_attr := v, calls := spec_trim (period s) (calls s @ replicate (nat v) now)\<rparr>)"
    by (simp add: set_ok exit_spec_trim consume_getter_def)
  have c6: "1 \<le> v \<longrightarrow>
        (snd (enter (snd (consume_setter s v)) t1 t2) = Inr Immediate)
          = (int (length (calls s)) + v \<le> max_calls s)"
  proof
    assume v: "1 \<le> v"
    show "(snd (enter (snd (consume_setter s v)) t1 t2) = Inr Immediate)
          = (int (length (calls s)) + v \<le> max_calls s)"
    proof (cases "int (length (calls s)) + v \<le> max_calls s")
      case True
      with v show ?thesis by (simp add: set_ok enter_immediate consume_getter_def)
    next
      case False
      with v show ?thesis
        by (cases "max_calls s = 0")
           (simp_all add: set_ok enter_blocking enter_zero_capacity consume_getter_def Let_def)
    qed
  qed
  show ?thesis
    by (intro conjI c1 c2 c3 c4 c5 c6)
qed

text \<open>Weight 3 is accepted, weight 0 is refused, and the next release appends three entries.\<close>

theorem consume_property_witness:
  "consume_setter \<lparr>calls = [0], period = 1, max_calls = 5, callback = None :: nat option, consume_attr = 1\<rparr> 3
     = (Inr (), \<lparr>calls = [0], period = 1, max_calls = 5, callback = None, consume_attr = 3\<rparr>)
   \<and> consume_setter \<lparr>calls = [0], period = 1, max_calls = 5, callback = None :: nat option, consume_attr = 1\<rparr> 0
     = (Inl (ValueError ''Number of calls to consume should be >= 1''),
        \<lparr>calls = [0], period = 1, max_calls = 5, callback = None, consume_attr = 1\<rparr>)
   \<and> consume_getter (foldl (\<lambda>s v. snd (consume_setter s v))
        \<lparr>calls = [0], period = 1, max_calls = 5, callback = None :: nat option, consume_attr = 1\<rparr> [3, 0]) = 3
   \<and> exit (snd (consume_setter
        \<lparr>calls = [0], period = 1, max_calls = 5, callback = None :: nat option, consume_attr = 1\<rparr> 3)) (1/2)
     = ([Lock_acquire, Lock_release], Inr (),
        \<lparr>calls = [0, 1/2, 1/2, 1/2], period = 1, max_calls = 5, callback = None, consume_attr = 3\<rparr>)"
  using consume_property
      [of 3 "\<lparr>calls = [0], period = 1, max_calls = 5, callback = None :: nat option, consume_attr = 1\<rparr>"
          "[3, 0]" "1/2" 0 0]
    consume_property
      [of 0 "\<lparr>calls = [0], period = 1, max_calls = 5, callback = None :: nat option, consume_attr = 1\<rparr>"
          "[3, 0]" "1/2" 0 0]
  by (simp add: eval_nat_numeral consume_getter_def consume_setter_def exit_def trim_Cons)

section \<open>Acquire\<close>

text \<open>
  Claim C1. \<^verbatim>\<open>__enter__\<close> takes the immediate arm exactly when
  \<^verbatim>\<open>len(calls) + consume <= max_calls\<close>, and then does nothing but take and drop the
  lock: it starts no thread and does not sleep. With a positive capacity it takes the
  blocking arm exactly when \<^verbatim>\<open>len(calls) + consume > max_calls\<close>, and that arm is the
  one that computes the admission time, hands it to the callback thread when there is a
  callback, and sleeps until it when it lies after the second clock read. With capacity
  zero the arm raises \<^verbatim>\<open>ZeroDivisionError\<close>.
\<close>

theorem enter_blocks_iff:
  "(snd (enter s t1 t2) = Inr Immediate) = (int (length (calls s)) + consume_getter s \<le> max_calls s)
   \<and> (int (length (calls s)) + consume_getter s \<le> max_calls s \<longrightarrow>
        enter s t1 t2 = ([Lock_acquire, Lock_release], Inr Immediate))
   \<and> (0 < max_calls s \<longrightarrow>
        (\<exists>until sleeptime. snd (enter s t1 t2) = Inr (Blocking until sleeptime))
          = (max_calls s < int (length (calls s)) + consume_getter s))
   \<and> (0 < max_calls s \<and> max_calls s < int (length (calls s)) + consume_getter s \<longrightarrow>
        (\<exists>until.
            until = t1 + real_of_int \<lceil>real_of_int (consume_getter s) / real_of_int (max_calls s)\<rceil> * period s
                      - timespan (calls s)
          \<and> enter s t1 t2 =
              ([Lock_acquire]
                 @ (case callback s of None \<Rightarrow> [] | Some cb \<Rightarrow> [Thread_start cb until])
                 @ (if 0 < until - t2 then [Sleep (until - t2)] else [])
                 @ [Lock_release],
               Inr (Blocking until (until - t2)))))
   \<and> (max_calls s = 0 \<and> 0 < int (length (calls s)) + consume_getter s \<longrightarrow>
        enter s t1 t2 = ([Lock_acquire, Lock_release], Inl ZeroDivisionError))"
proof (cases "int (length (calls s)) + consume_getter s \<le> max_calls s")
  case True
  then show ?thesis by (simp add: enter_immediate)
next
  case False
  then have blk: "max_calls s < int (length (calls s)) + consume_getter s" by simp
  show ?thesis
  proof (cases "max_calls s = 0")
    case True
    with blk show ?thesis by (simp add: enter_zero_capacity)
  next
    case False
    with blk show ?thesis by (simp add: enter_blocking Let_def)
  qed
qed

text \<open>
  Capacity two: with one logged entry and weight one the call is immediate; with two
  entries and weight three it starts the callback thread and sleeps two periods.
\<close>

theorem enter_blocks_iff_witness:
  "enter \<lparr>calls = [0], period = 1, max_calls = 2, callback = None :: nat option, consume_attr = 1\<rparr> 0 0
     = ([Lock_acquire, Lock_release], Inr Immediate)
   \<and> (0::int) < 2
   \<and> enter \<lparr>calls = [0, 0], period = 1, max_calls = 2, callback = Some (7::nat), consume_attr = 3\<rparr> 3 3
     = ([Lock_acquire, Thread_start 7 5, Sleep 2, Lock_release], Inr (Blocking 5 2))"
  using enter_blocks_iff
      [of "\<lparr>calls = [0], period = 1, max_calls = 2, callback = None :: nat option, consume_attr = 1\<rparr>" 0 0]
    enter_blocks_iff
      [of "\<lparr>calls = [0, 0], period = 1, max_calls = 2, callback = Some (7::nat), consume_attr = 3\<rparr>" 3 3]
  by (simp add: consume_getter_def timespan_def)

text \<open>
  Claim C3. In the blocking arm the admission time is the clock read plus
  \<open>\<lceil>consume / max_calls\<rceil>\<close> periods minus the span of the log (zero for an empty log);
  it is what the callback thread receives; the call sleeps exactly when the admission
  time lies after the second clock read, and then for the difference; and weight 15 on
  capacity 10 gives two cycles.
\<close>

theorem enter_admission_time:
  assumes "0 < max_calls s" and "max_calls s < int (length (calls s)) + consume_getter s"
  shows "\<exists>until.
       until = t1 + real_of_int \<lceil>real_of_int (consume_getter s) / real_of_int (max_calls s)\<rceil> * period s
                 - (if calls s = [] then 0 else last (calls s) - hd (calls s))
     \<and> enter s t1 t2 =
         ([Lock_acquire]
            @ (case callback s of None \<Rightarrow> [] | Some cb \<Rightarrow> [Thread_start cb until])
            @ (if 0 < until - t2 then [Sleep (until - t2)] else [])
            @ [Lock_release],
          Inr (Blocking until (until - t2)))
     \<and> (\<exists>d. Sleep d \<in> set (fst (enter s t1 t2))) = (0 < until - t2)
     \<and> (consume_getter s = 15 \<and> max_calls s = 10 \<longrightarrow>
          cycles (consume_getter s) (max_calls s) = Inr 2
          \<and> until = t1 + 2 * period s - timespan (calls s))"
proof -
  define until where
    "until = t1 + real_of_int \<lceil>real_of_int (consume_getter s) / real_of_int (max_calls s)\<rceil> * period s
               - timespan (calls s)"
  have e: "enter s t1 t2 =
         ([Lock_acquire]
            @ (case callback s of None \<Rightarrow> [] | Some cb \<Rightarrow> [Thread_start cb until])
            @ (if 0 < until - t2 then [Sleep (until - t2)] else [])
            @ [Lock_release],
          Inr (Blocking until (until - t2)))"
    unfolding until_def using enter_blocking [of s t1 t2] assms by (simp add: Let_def)
  have sl: "(\<exists>d. Sleep d \<in> set (fst (enter s t1 t2))) = (0 < until - t2)"
    by (cases "callback s") (auto simp: e)
  have fifteen: "cycles (consume_getter s) (max_calls s) = Inr 2 \<and> until = t1 + 2 * period s - timespan (calls s)"
    if "consume_getter s = 15 \<and> max_calls s = 10"
    using that by (simp add: cycles_def until_def)
  have "until = t1 + real_of_int \<lceil>real_of_int (consume_getter s) / real_of_int (max_calls s)\<rceil> * period s
                 - (if calls s = [] then 0 else last (calls s) - hd (calls s))"
    by (simp add: until_def timespan_def)
  with e sl fifteen show ?thesis by blast
qed

text \<open>Weight 15 on capacity 10, period 60, a log spanning 2, clock reads 100 and 101.\<close>

theorem enter_admission_time_witness:
  "(0::int) < 10 \<and> (10::int) < int (length [1::real, 3]) + 15
   \<and> enter \<lparr>calls = [1, 3], period = 60, max_calls = 10, callback = Some (7::nat), consume_attr = 15\<rparr> 100 101
       = ([Lock_acquire, Thread_start 7 218, Sleep 117, Lock_release], Inr (Blocking 218 117))
   \<and> cycles 15 10 = Inr 2"
  using enter_admission_time
      [of "\<lparr>calls = [1, 3], period = 60, max_calls = 10, callback = Some (7::nat), consume_attr = 15\<rparr>" 100 101]
  by (simp add: consume_getter_def timespan_def)

text \<open>
  A blocked call on a full limiter of capacity one: its one-second sleep does not happen
  while the lock is free.
\<close>

theorem enter_sleeps_outside_guard_counterexample:
  "\<not> sleeps_when False False
       (fst (enter \<lparr>calls = [0], period = 1, max_calls = 1, callback = None :: nat option, consume_attr = 1\<rparr> 0 0))"
  by (simp add: enter_def consume_getter_def cycles_def timespan_def)

text \<open>
  Claim C4, as the code has it. \<^verbatim>\<open>__enter__\<close> holds the lock during its whole body: the
  lock is taken first and dropped last, nothing in between touches it, so every sleep
  happens while the lock is held, and the lock is free again when the call returns.
\<close>

theorem enter_sleeps_holding_guard:
  "\<exists>mid. fst (enter s t1 t2) = [Lock_acquire] @ mid @ [Lock_release]
       \<and> Lock_acquire \<notin> set mid \<and> Lock_release \<notin> set mid
       \<and> sleeps_when True False (fst (enter s t1 t2))
       \<and> \<not> guard_after False (fst (enter s t1 t2))"
proof (cases "int (length (calls s)) + consume_getter s \<le> max_calls s")
  case True
  then show ?thesis by (simp add: enter_immediate)
next
  case False
  then have blk: "max_calls s < int (length (calls s)) + consume_getter s" by simp
  show ?thesis
  proof (cases "max_calls s = 0")
    case True
    with blk show ?thesis by (simp add: enter_zero_capacity)
  next
    case False
    with blk show ?thesis
      by (cases "callback s") (simp_all add: enter_blocking Let_def)
  qed
qed

text \<open>The same blocked call: it sleeps between taking and dropping the lock.\<close>

theorem enter_sleeps_holding_guard_witness:
  "fst (enter \<lparr>calls = [0], period = 1, max_calls = 1, callback = None :: nat option, consume_attr = 1\<rparr> 0 0)
     = [Lock_acquire, Sleep 1, Lock_release]
   \<and> sleeps_when True False
       (fst (enter \<lparr>calls = [0], period = 1, max_calls = 1, callback = None :: nat option, consume_attr = 1\<rparr> 0 0))"
  using enter_sleeps_holding_guard
      [of "\<lparr>calls = [0], period = 1, max_calls = 1, callback = None :: nat option, consume_attr = 1\<rparr>" 0 0]
  by (simp add: enter_def consume_getter_def cycles_def timespan_def)

text \<open>
  Claim C9. Construct a limiter of capacity \<open>c\<close> and weight \<open>c\<close>, run one unblocked
  \<^verbatim>\<open>__enter__\<close> and its \<^verbatim>\<open>__exit__\<close> at time \<open>t\<close>, and set the weight to \<open>w\<close>: the log
  holds \<open>c\<close> entries of timestamp \<open>t\<close>. From then on every \<^verbatim>\<open>__enter__\<close>, whatever the
  clock reads, takes the blocking arm with admission time
  \<open>now + \<lceil>w / c\<rceil> * period\<close>, and sleeps that many whole periods (at least one) when the
  two clock reads agree.
\<close>

theorem enter_ignores_clock:
  assumes "0 < c" and "0 < p" and "1 \<le> w"
  shows "\<exists>s0 s1 s.
        init c p cb c = Inr s0
      \<and> enter s0 t t = ([Lock_acquire, Lock_release], Inr Immediate)
      \<and> exit s0 t = ([Lock_acquire, Lock_release], Inr (), s1)
      \<and> consume_setter s1 w = (Inr (), s)
      \<and> calls s = replicate (nat c) t \<and> period s = p \<and> max_calls s = c \<and> consume_getter s = w
      \<and> (\<forall>t1 t2. snd (enter s t1 t2) =
            Inr (Blocking (t1 + real_of_int \<lceil>real_of_int w / real_of_int c\<rceil> * p)
                          (t1 + real_of_int \<lceil>real_of_int w / real_of_int c\<rceil> * p - t2)))
      \<and> (\<forall>t1. Sleep (real_of_int \<lceil>real_of_int w / real_of_int c\<rceil> * p) \<in> set (fst (enter s t1 t1)))
      \<and> p \<le> real_of_int \<lceil>real_of_int w / real_of_int c\<rceil> * p"
proof -
  define s0 :: "'a RateLimiter" where
    "s0 = \<lparr>calls = [], period = p, max_calls = c, callback = cb, consume_attr = c\<rparr>"
  define s1 where "s1 = s0\<lparr>calls := replicate (nat c) t\<rparr>"
  define s where "s = s1\<lparr>consume_attr := w\<rparr>"
  define k where "k = \<lceil>real_of_int w / real_of_int c\<rceil>"
  have i: "init c p cb c = Inr s0"
    using assms by (simp add: init_def s0_def)
  have e0: "enter s0 t t = ([Lock_acquire, Lock_release], Inr Immediate)"
    by (rule enter_immediate) (simp add: s0_def consume_getter_def)
  have x: "exit s0 t = ([Lock_acquire, Lock_release], Inr (), s1)"
    using assms(2) by (simp add: exit_spec_trim spec_trim_replicate s0_def s1_def consume_getter_def)
  have st: "consume_setter s1 w = (Inr (), s)"
    using assms(3) by (simp add: consume_setter_def s_def)
  have fields: "calls s = replicate (nat c) t" "period s = p" "max_calls s = c" "consume_getter s = w"
    by (simp_all add: s_def s1_def s0_def consume_getter_def)
  have blk: "max_calls s \<noteq> 0" "max_calls s < int (length (calls s)) + consume_getter s"
    using assms by (simp_all add: fields)
  have cbs: "callback s = cb"
    by (simp add: s_def s1_def s0_def)
  have en: "enter s t1 t2 =
      ([Lock_acquire]
         @ (case cb of None \<Rightarrow> [] | Some f \<Rightarrow> [Thread_start f (t1 + real_of_int k * p)])
         @ (if 0 < t1 + real_of_int k * p - t2 then [Sleep (t1 + real_of_int k * p - t2)] else [])
         @ [Lock_release],
       Inr (Blocking (t1 + real_of_int k * p) (t1 + real_of_int k * p - t2)))" for t1 t2
    unfolding k_def using enter_blocking [OF blk, of t1 t2] cbs
    by (cases cb) (simp_all add: fields Let_def timespan_replicate)
  have "0 < real_of_int w / real_of_int c"
    using assms by simp
  then have "1 \<le> k"
    unfolding k_def by linarith
  then have kp: "p \<le> real_of_int k * p"
    using assms(2) by simp
  then have pos: "0 < real_of_int k * p"
    using assms(2) by linarith
  have sl: "Sleep (real_of_int k * p) \<in> set (fst (enter s t1 t1))" for t1
    using pos by (simp add: en)
  have br: "snd (enter s t1 t2) = Inr (Blocking (t1 + real_of_int k * p) (t1 + real_of_int k * p - t2))"
    for t1 t2
    by (simp add: en)
  from i e0 x st fields(1-4) br sl kp show ?thesis
    unfolding k_def by blast
qed

text \<open>Capacity 2, period 1, weight 3, entries of time 0: a call at time 1000 sleeps two periods.\<close>

theorem enter_ignores_clock_witness:
  "(0::int) < 2 \<and> (0::real) < 1 \<and> (1::int) \<le> 3
   \<and> (\<exists>s0 s1 s.
        init 2 1 (None :: nat option) 2 = Inr s0
      \<and> exit s0 0 = ([Lock_acquire, Lock_release], Inr (), s1)
      \<and> consume_setter s1 3 = (Inr (), s)
      \<and> calls s = [0, 0]
      \<and> snd (enter s 1000 1000) = Inr (Blocking 1002 2)
      \<and> Sleep 2 \<in> set (fst (enter s 1000 1000)))"
  using enter_ignores_clock [of 2 1 3 "None :: nat option" 0]
  apply (simp add: eval_nat_numeral)
  apply (elim exE conjE)
  subgoal for s0 s1 s
    apply (rule exI [of _ s0])
    apply simp
    done
  done

section \<open>Release\<close>

text \<open>
  Claim C2. On a limiter with a positive period (every limiter the constructor returns),
  \<^verbatim>\<open>__exit__\<close> appends exactly \<^verbatim>\<open>consume\<close> copies of the current timestamp to the tail
  of the log, then removes the oldest entry while the log is non-empty and newest minus
  oldest is at least the period (the loop of the specification, \<open>spec_trim\<close>); it returns
  normally and changes nothing else of the limiter.
\<close>

theorem exit_appends_then_trims:
  assumes "0 < period s"
  shows "exit s now = ([Lock_acquire, Lock_release], Inr (),
     s\<lparr>calls := spec_trim (period s) (calls s @ replicate (nat (consume_getter s)) now)\<rparr>)"
  using assms by (rule exit_spec_trim)

text \<open>A limiter holding two entries, of weight two, released at time 1.2: one entry ages out.\<close>

theorem exit_appends_then_trims_witness:
  "0 < period \<lparr>calls = [0, 1/2], period = 1, max_calls = 3, callback = None :: nat option, consume_attr = 2\<rparr> \<and>
   exit \<lparr>calls = [0, 1/2], period = 1, max_calls = 3, callback = None :: nat option, consume_attr = 2\<rparr> (6/5)
     = ([Lock_acquire, Lock_release], Inr (),
        \<lparr>calls = [1/2, 6/5, 6/5], period = 1, max_calls = 3, callback = None, consume_attr = 2\<rparr>)"
  using exit_appends_then_trims
    [of "\<lparr>calls = [0, 1/2], period = 1, max_calls = 3, callback = None :: nat option, consume_attr = 2\<rparr>" "6/5"]
  by (simp add: consume_getter_def eval_nat_numeral)

text \<open>
  A clock that runs backwards: a limiter of period 1 is constructed, released at time 5
  and released again at time 3. The second release retains the entry of time 5, which is
  two periods away from the newest entry.
\<close>

theorem exit_backward_clock_counterexample:
  "init 5 1 (None :: nat option) 1
     = Inr \<lparr>calls = [], period = 1, max_calls = 5, callback = None, consume_attr = 1\<rparr>
   \<and> exit \<lparr>calls = [], period = 1, max_calls = 5, callback = None :: nat option, consume_attr = 1\<rparr> 5
     = ([Lock_acquire, Lock_release], Inr (),
        \<lparr>calls = [5], period = 1, max_calls = 5, callback = None, consume_attr = 1\<rparr>)
   \<and> exit \<lparr>calls = [5], period = 1, max_calls = 5, callback = None :: nat option, consume_attr = 1\<rparr> 3
     = ([Lock_acquire, Lock_release], Inr (),
        \<lparr>calls = [5, 3], period = 1, max_calls = 5, callback = None, consume_attr = 1\<rparr>)
   \<and> \<not> (\<forall>x\<in>set (calls (snd (snd (exit
          \<lparr>calls = [5], period = 1, max_calls = 5, callback = None :: nat option, consume_attr = 1\<rparr> 3)))).
          \<bar>3 - x\<bar> < period \<lparr>calls = [5], period = 1, max_calls = 5, callback = None :: nat option, consume_attr = 1\<rparr>)"
  by (simp add: init_def exit_def consume_getter_def trim_Cons trim_Nil)

text \<open>
  Claim C5, as the code has it. After a release on a limiter with a positive period and a
  weight of at least one: the release returns; the log splits into the removed prefix and
  the retained rest; the retained rest is non-empty, ends with the current timestamp, and
  its first and last entries are less than one period apart; every removed entry is at
  least one period older than the newest; and when the clock has not run backwards (the
  log followed by the current time is sorted) every retained entry is less than one
  period away from the newest.
\<close>

theorem exit_window:
  assumes "0 < period s" and "1 \<le> consume_getter s"
  shows "\<exists>dropped kept.
           exit s now = ([Lock_acquire, Lock_release], Inr (), s\<lparr>calls := kept\<rparr>)
         \<and> calls s @ replicate (nat (consume_getter s)) now = dropped @ kept
         \<and> kept \<noteq> [] \<and> last kept = now
         \<and> timespan kept < period s
         \<and> (\<forall>x\<in>set dropped. period s \<le> now - x)
         \<and> (sorted (calls s @ [now]) \<longrightarrow> (\<forall>x\<in>set kept. \<bar>now - x\<bar> < period s))"
proof -
  define full where "full = calls s @ replicate (nat (consume_getter s)) now"
  define P where "P = (\<lambda>x. last full - x \<ge> period s)"
  define dropped where "dropped = takeWhile P full"
  define kept where "kept = dropWhile P full"
  from assms(2) obtain m where m: "nat (consume_getter s) = Suc m"
    by (cases "nat (consume_getter s)") simp_all
  have ne: "full \<noteq> []" and last_full: "last full = now"
    by (simp_all add: full_def m)
  note w = spec_trim_window [OF assms(1) ne, folded P_def, folded kept_def]
  have ex: "exit s now = ([Lock_acquire, Lock_release], Inr (), s\<lparr>calls := kept\<rparr>)"
    using exit_spec_trim [OF assms(1), of now] w(1) by (simp add: full_def)
  have split: "calls s @ replicate (nat (consume_getter s)) now = dropped @ kept"
    by (simp add: dropped_def kept_def full_def [symmetric])
  have kept_ne: "kept \<noteq> []" and last_kept: "last kept = now"
    using w(2,3) last_full by simp_all
  have span: "timespan kept < period s"
    using w(4) kept_ne last_kept last_full by (simp add: timespan_def)
  have old: "\<forall>x\<in>set dropped. period s \<le> now - x"
    using set_takeWhileD [of _ P full] last_full by (auto simp: dropped_def P_def)
  have fresh: "\<forall>x\<in>set kept. \<bar>now - x\<bar> < period s" if srt: "sorted (calls s @ [now])"
  proof
    fix x assume x: "x \<in> set kept"
    have sf: "sorted full"
      using srt by (auto simp: full_def sorted_append)
    moreover have "full = dropped @ kept"
      by (simp add: dropped_def kept_def)
    ultimately have sk: "sorted kept"
      by (simp add: sorted_append)
    have "x \<in> set full"
      using x set_dropWhileD by (fastforce simp: kept_def)
    moreover have "\<forall>y\<in>set full. y \<le> now"
      using srt by (auto simp: full_def sorted_append)
    ultimately have "x \<le> now" by blast
    moreover have "hd kept \<le> x"
      using sk x kept_ne by (cases kept) auto
    ultimately show "\<bar>now - x\<bar> < period s"
      using w(4) last_full by (simp add: kept_def)
  qed
  from ex split kept_ne last_kept span old fresh show ?thesis
    by blast
qed

text \<open>The same limiter and release: the entry of time 0 is removed, the rest retained.\<close>

theorem exit_window_witness:
  "0 < period \<lparr>calls = [0, 1/2], period = 1, max_calls = 3, callback = None :: nat option, consume_attr = 2\<rparr>
   \<and> 1 \<le> consume_getter \<lparr>calls = [0, 1/2], period = 1, max_calls = 3, callback = None :: nat option, consume_attr = 2\<rparr>
   \<and> sorted ([0, 1/2] @ [6/5 :: real])
   \<and> (\<exists>dropped kept.
        exit \<lparr>calls = [0, 1/2], period = 1, max_calls = 3, callback = None :: nat option, consume_attr = 2\<rparr> (6/5)
          = ([Lock_acquire, Lock_release], Inr (),
             \<lparr>calls = kept, period = 1, max_calls = 3, callback = None, consume_attr = 2\<rparr>)
        \<and> [0, 1/2, 6/5, 6/5] = dropped @ kept \<and> kept \<noteq> [] \<and> last kept = 6/5 \<and> timespan kept < 1)"
  using exit_window
    [of "\<lparr>calls = [0, 1/2], period = 1, max_calls = 3, callback = None :: nat option, consume_attr = 2\<rparr>" "6/5"]
  by (simp add: consume_getter_def eval_nat_numeral) blast

text \<open>
  Claim C10. On a limiter with a positive period, a release retains a suffix of the old
  log followed by all the entries it has appended itself; so the log then holds at least
  \<^verbatim>\<open>consume\<close> entries, and is not empty when the weight is at least one.
\<close>

theorem exit_keeps_own_entries:
  assumes "0 < period s"
  shows "\<exists>k\<le>length (calls s).
           exit s now = ([Lock_acquire, Lock_release], Inr (),
             s\<lparr>calls := drop k (calls s) @ replicate (nat (consume_getter s)) now\<rparr>)
         \<and> consume_getter s \<le> int (length (calls (snd (snd (exit s now)))))
         \<and> (1 \<le> consume_getter s \<longrightarrow> calls (snd (snd (exit s now))) \<noteq> [])"
proof -
  obtain k where k: "k \<le> length (calls s)"
    "spec_trim (period s) (calls s @ replicate (nat (consume_getter s)) now)
       = drop k (calls s) @ replicate (nat (consume_getter s)) now"
    using spec_trim_append_replicate [OF assms] by blast
  have ex: "exit s now = ([Lock_acquire, Lock_release], Inr (),
             s\<lparr>calls := drop k (calls s) @ replicate (nat (consume_getter s)) now\<rparr>)"
    using exit_spec_trim [OF assms, of now] k(2) by simp
  have "consume_getter s \<le> int (length (calls (snd (snd (exit s now)))))"
    by (simp add: ex)
  moreover have "calls (snd (snd (exit s now))) \<noteq> []" if "1 \<le> consume_getter s"
    using that by (simp add: ex)
  ultimately show ?thesis
    using k(1) ex by blast
qed

text \<open>A release long after the old entries: they all go, the two new ones stay.\<close>

theorem exit_keeps_own_entries_witness:
  "0 < period \<lparr>calls = [0, 1/2], period = 1, max_calls = 3, callback = None :: nat option, consume_attr = 2\<rparr>
   \<and> 1 \<le> consume_getter \<lparr>calls = [0, 1/2], period = 1, max_calls = 3, callback = None :: nat option, consume_attr = 2\<rparr>
   \<and> exit \<lparr>calls = [0, 1/2], period = 1, max_calls = 3, callback = None :: nat option, consume_attr = 2\<rparr> 7
       = ([Lock_acquire, Lock_release], Inr (),
          \<lparr>calls = [7, 7], period = 1, max_calls = 3, callback = None, consume_attr = 2\<rparr>)
   \<and> calls (snd (snd (exit \<lparr>calls = [0, 1/2], period = 1, max_calls = 3, callback = None :: nat option, consume_attr = 2\<rparr> 7))) \<noteq> []"
  using exit_keeps_own_entries
    [of "\<lparr>calls = [0, 1/2], period = 1, max_calls = 3, callback = None :: nat option, consume_attr = 2\<rparr>" 7]
  by (simp add: consume_getter_def eval_nat_numeral exit_def trim_Cons trim_Nil)

section \<open>The decorator\<close>

text \<open>
  Claim C7. On a limiter of positive capacity, with a callable that leaves the period
  positive, a call of the decorated function is \<^verbatim>\<open>__enter__\<close>, the callable, then
  \<^verbatim>\<open>__exit__\<close> on the limiter as the callable left it: the value the callable returns is
  returned unchanged, the exception it raises is raised unchanged, and in both cases the
  limiter returned is the one \<^verbatim>\<open>__exit__\<close> has updated.
\<close>

theorem wrapped_propagates:
  assumes "0 < max_calls s" and "f args s = (r, s1)" and "0 < period s1"
  shows "\<exists>ev1 b s2.
         enter s t1 t2 = (ev1, Inr b)
       \<and> exit s1 t3 = ([Lock_acquire, Lock_release], Inr (), s2)
       \<and> s2 = s1\<lparr>calls := spec_trim (period s1) (calls s1 @ replicate (nat (consume_getter s1)) t3)\<rparr>
       \<and> wrapped f s t1 t2 t3 args =
           (ev1 @ [Lock_acquire, Lock_release],
            (case r of Inl x \<Rightarrow> Inl (Callable_error x) | Inr v \<Rightarrow> Inr v),
            s2)
       \<and> (\<forall>v. r = Inr v \<longrightarrow> fst (snd (wrapped f s t1 t2 t3 args)) = Inr v)
       \<and> (\<forall>x. r = Inl x \<longrightarrow> fst (snd (wrapped f s t1 t2 t3 args)) = Inl (Callable_error x))"
proof -
  obtain ev1 b where e: "enter s t1 t2 = (ev1, Inr b)"
  proof (cases "int (length (calls s)) + consume_getter s \<le> max_calls s")
    case True
    then show ?thesis using that by (simp add: enter_immediate)
  next
    case False
    with assms(1) show ?thesis using that by (simp add: enter_blocking Let_def)
  qed
  define s2 where
    "s2 = s1\<lparr>calls := spec_trim (period s1) (calls s1 @ replicate (nat (consume_getter s1)) t3)\<rparr>"
  have x: "exit s1 t3 = ([Lock_acquire, Lock_release], Inr (), s2)"
    unfolding s2_def using assms(3) by (rule exit_spec_trim)
  have w: "wrapped f s t1 t2 t3 args =
           (ev1 @ [Lock_acquire, Lock_release],
            (case r of Inl x \<Rightarrow> Inl (Callable_error x) | Inr v \<Rightarrow> Inr v),
            s2)"
    by (simp add: wrapped_def e assms(2) x)
  have "\<forall>v. r = Inr v \<longrightarrow> fst (snd (wrapped f s t1 t2 t3 args)) = Inr v"
    and "\<forall>x. r = Inl x \<longrightarrow> fst (snd (wrapped f s t1 t2 t3 args)) = Inl (Callable_error x)"
    by (simp_all add: w)
  with e x w s2_def show ?thesis by blast
qed

text \<open>A callable that raises on argument 0 and returns its successor otherwise.\<close>

theorem wrapped_propagates_witness:
  "(0::int) < max_calls \<lparr>calls = [0], period = 1, max_calls = 1, callback = None :: nat option, consume_attr = 1\<rparr>
   \<and> wrapped (\<lambda>a s. (if a = (0::nat) then Inl ''boom'' else Inr (a + 1), s))
        \<lparr>calls = [0], period = 1, max_calls = 1, callback = None :: nat option, consume_attr = 1\<rparr> 0 0 2 0
      = ([Lock_acquire, Sleep 1, Lock_release, Lock_acquire, Lock_release],
         Inl (Callable_error ''boom''),
         \<lparr>calls = [2], period = 1, max_calls = 1, callback = None, consume_attr = 1\<rparr>)
   \<and> wrapped (\<lambda>a s. (if a = (0::nat) then Inl ''boom'' else Inr (a + 1), s))
        \<lparr>calls = [0], period = 1, max_calls = 1, callback = None :: nat option, consume_attr = 1\<rparr> 0 0 2 4
      = ([Lock_acquire, Sleep 1, Lock_release, Lock_acquire, Lock_release],
         Inr 5,
         \<lparr>calls = [2], period = 1, max_calls = 1, callback = None, consume_attr = 1\<rparr>)"
  using wrapped_propagates
      [of "\<lparr>calls = [0], period = 1, max_calls = 1, callback = None :: nat option, consume_attr = 1\<rparr>"
          "\<lambda>a s. (if a = (0::nat) then Inl ''boom'' else Inr (a + 1), s)" 0 "Inl ''boom''"
          "\<lparr>calls = [0], period = 1, max_calls = 1, callback = None :: nat option, consume_attr = 1\<rparr>"
          0 0 2]
    wrapped_propagates
      [of "\<lparr>calls = [0], period = 1, max_calls = 1, callback = None :: nat option, consume_attr = 1\<rparr>"
          "\<lambda>a s. (if a = (0::nat) then Inl ''boom'' else Inr (a + 1), s)" 4 "Inr 5"
          "\<lparr>calls = [0], period = 1, max_calls = 1, callback = None :: nat option, consume_attr = 1\<rparr>"
          0 0 2]
  by (simp add: consume_getter_def enter_def cycles_def timespan_def)

end
